theory Spec2Isabelle
  imports Complex_Main "HOL-Library.Sublist" "HOL-Library.Monad_Syntax" "HOL-Library.Log_Nat"
begin

section \<open>The dependency-check printer (src/test-project/main.cpp)\<close>

text \<open>
  The program writes seven string literals to \<open>std::cout\<close>, each followed by
  \<open>std::endl\<close>, and returns 0. Strings are byte strings: the source file is UTF-8,
  so each pictograph of a literal is the three or four bytes of its encoding.

  Everything outside the program that a run could consult is gathered in a record: the
  bytes waiting on standard input, the environment variables, the files on disk (where
  the libraries named in the messages would be installed) and the bytes written to
  standard output so far. \<open>main\<close> takes this record and returns it updated, together
  with the exit code.
\<close>

record world =
  w_stdin :: string
  w_environ :: "(string \<times> string) list"
  w_files :: "(string \<times> string) list"
  w_cout :: string

text \<open>\<open>std::cout << s\<close> appends the bytes of \<open>s\<close> to the output.\<close>

definition cout_str :: "string \<Rightarrow> world \<Rightarrow> world" where
  "cout_str s w = w\<lparr>w_cout := w_cout w @ s\<rparr>"

text \<open>
  \<open>std::cout << std::endl\<close> appends a line feed and flushes the stream; flushing
  does not change the sequence of bytes written.
\<close>

definition cout_endl :: "world \<Rightarrow> world" where
  "cout_endl w = w\<lparr>w_cout := w_cout w @ [CHR 0x0A]\<rparr>"

text \<open>The UTF-8 encodings of the four pictographs that occur in the literals.\<close>

definition utf8_test_tube :: string where
  "utf8_test_tube = [CHR 0xF0, CHR 0x9F, CHR 0xA7, CHR 0xAA]"

definition utf8_check_mark :: string where
  "utf8_check_mark = [CHR 0xE2, CHR 0x9C, CHR 0x85]"

definition utf8_party_popper :: string where
  "utf8_party_popper = [CHR 0xF0, CHR 0x9F, CHR 0x8E, CHR 0x89]"

definition utf8_memo :: string where
  "utf8_memo = [CHR 0xF0, CHR 0x9F, CHR 0x93, CHR 0x9D]"

definition printer_main :: "world \<Rightarrow> world \<times> int" where
  "printer_main w0 =
    (let w1 = cout_endl (cout_str (utf8_test_tube @ '' CoralMachine Dependency Test'') w0);
         w2 = cout_endl (cout_str (utf8_check_mark @ '' Palabos library available for linking'') w1);
         w3 = cout_endl (cout_str (utf8_check_mark @ '' Geometry Central library available for linking'') w2);
         w4 = cout_endl (cout_str (utf8_check_mark @ '' CUDA toolkit available'') w3);
         w5 = cout_endl (cout_str (utf8_check_mark @ '' C++20 compilation successful'') w4);
         w6 = cout_endl (cout_str (utf8_party_popper @ '' Basic dependency test passed!'') w5);
         w7 = cout_endl (cout_str (utf8_memo @ '' Note: MPI and full Palabos headers need container-specific setup'') w6)
     in (w7, 0))"

text \<open>
  The number of positions of a byte string at which a given pattern starts: how often
  the pattern occurs in it as a contiguous substring.
\<close>

fun occurrences :: "'a list \<Rightarrow> 'a list \<Rightarrow> nat" where
  "occurrences p [] = (if p = [] then 1 else 0)"
| "occurrences p (x # xs) = (if prefix p (x # xs) then 1 else 0) + occurrences p xs"

text \<open>
  The seven string literals of the source, in the order of the statements that print them.
\<close>

definition confirmation_strings :: "string list" where
  "confirmation_strings =
    [utf8_test_tube @ '' CoralMachine Dependency Test'',
     utf8_check_mark @ '' Palabos library available for linking'',
     utf8_check_mark @ '' Geometry Central library available for linking'',
     utf8_check_mark @ '' CUDA toolkit available'',
     utf8_check_mark @ '' C++20 compilation successful'',
     utf8_party_popper @ '' Basic dependency test passed!'',
     utf8_memo @ '' Note: MPI and full Palabos headers need container-specific setup'']"


section \<open>The lattice-Boltzmann smoke test (src/gpu_validation/tests/palabos_minimal.cpp)\<close>

text \<open>
  The constants of the anonymous namespace. \<open>plint\<close> is the integer type of the
  external library; the values used here are far from any bound, so integers are
  unbounded in the model. The literal \<open>1.0\<close> is exactly representable as a
  \<open>double\<close> and is modelled as the rational number 1.
\<close>

definition nx :: int where "nx = 100"
definition ny :: int where "ny = 100"
definition nz :: int where "nz = 100"
definition iterations :: int where "iterations = 100"
definition omega :: rat where "omega = 1"

text \<open>
  The calls that \<open>main\<close> makes into the external library, with the arguments it passes:
  \<open>plbInit(&argc, &argv)\<close>, \<open>new AcceleratedBGKdynamics<double, D3Q19Descriptor>(omega)\<close>,
  the constructor of \<open>MultiBlockLattice3D<double, D3Q19Descriptor>\<close> with the three
  dimensions (and the dynamics object just created), \<open>lattice.initialize()\<close> and
  \<open>lattice.collideAndStream()\<close>.
\<close>

datatype plb_call =
    PlbInit int "string list"
  | NewAcceleratedBGKdynamics rat
  | NewMultiBlockLattice3D int int int
  | Initialize
  | CollideAndStream

text \<open>
  The library itself is not part of the repository. It is a parameter of the model: a
  function that, for a call and the current state of everything the library owns
  (its globals, the lattice, device memory), gives the state after the call, or \<open>None\<close>
  when the call does not return (a fault, an uncaught exception, an abort). The program
  has no handler, so a call that does not return ends the run without an exit code from
  \<open>main\<close>.
\<close>

type_synonym 's plb_library = "plb_call \<Rightarrow> 's \<Rightarrow> 's option"

text \<open>
  The loop \<open>for (int i = 0; i < iterations; ++i) lattice.collideAndStream();\<close>
  The counter stays between 0 and 100, so the 32-bit \<open>int\<close> never wraps.
\<close>

function collide_loop :: "'s plb_library \<Rightarrow> int \<Rightarrow> 's \<Rightarrow> 's option" where
  "collide_loop lib i s =
    (if i < iterations
     then do { s' \<leftarrow> lib CollideAndStream s; collide_loop lib (i + 1) s' }
     else Some s)"
  by pat_completeness auto
termination
  by (relation "measure (\<lambda>(lib, i, s). nat (iterations - i))") auto

declare collide_loop.simps [simp del]

text \<open>
  \<open>main\<close>: the result is the library's final state and the value returned by
  \<open>return 0\<close>, or \<open>None\<close> when a library call did not return. The program writes
  nothing and returns nothing but this exit code. The destruction of \<open>lattice\<close> when
  \<open>main\<close> leaves its scope is implicit in the source and is not modelled as a call.
\<close>

definition palabos_main :: "'s plb_library \<Rightarrow> int \<Rightarrow> string list \<Rightarrow> 's \<Rightarrow> ('s \<times> int) option" where
  "palabos_main lib argc argv s0 =
    do {
      s1 \<leftarrow> lib (PlbInit argc argv) s0;
      s2 \<leftarrow> lib (NewAcceleratedBGKdynamics omega) s1;
      s3 \<leftarrow> lib (NewMultiBlockLattice3D nx ny nz) s2;
      s4 \<leftarrow> lib Initialize s3;
      s5 \<leftarrow> collide_loop lib 0 s4;
      Some (s5, 0)
    }"

text \<open>
  To observe which calls a run makes, a library is wrapped so that it also records every
  call it receives, in order, next to its own state.
\<close>

definition traced :: "'s plb_library \<Rightarrow> (plb_call list \<times> 's) plb_library" where
  "traced lib c ts = map_option (\<lambda>s'. (fst ts @ [c], s')) (lib c (snd ts))"

text \<open>Issuing a list of calls one after the other, stopping at the first that does not return.\<close>

fun run_calls :: "'s plb_library \<Rightarrow> plb_call list \<Rightarrow> 's \<Rightarrow> 's option" where
  "run_calls lib [] s = Some s"
| "run_calls lib (c # cs) s = do { s' \<leftarrow> lib c s; run_calls lib cs s' }"

text \<open>
  A library for concrete runs: every call returns, and the state counts the calls received.
\<close>

definition counting_library :: "nat plb_library" where
  "counting_library c n = Some (Suc n)"

section \<open>The parallel-algorithms smoke test (src/gpu_validation/tests/stdpar_test.cpp)\<close>

text \<open>
  Single-precision values: a finite number (every finite \<open>float\<close> is a rational; the two
  zeros compare alike), the two infinities, or a NaN.
\<close>

datatype float32 = Finite rat | PosInf | NegInf | NaN

text \<open>The comparison \<open>a > b\<close>: false whenever an operand is a NaN.\<close>

fun float_gt :: "float32 \<Rightarrow> float32 \<Rightarrow> bool" where
  "float_gt NaN b = False"
| "float_gt a NaN = False"
| "float_gt (Finite a) (Finite b) = (b < a)"
| "float_gt (Finite a) PosInf = False"
| "float_gt (Finite a) NegInf = True"
| "float_gt PosInf PosInf = False"
| "float_gt PosInf b = True"
| "float_gt NegInf b = False"

text \<open>
  The arithmetic of \<open>float\<close> is a parameter of the program's embedding: the
  multiplication and the addition of two values. What is proved about an arbitrary
  \<open>float_arith\<close> holds for every choice of them.
\<close>

record float_arith =
  fmul :: "float32 \<Rightarrow> float32 \<Rightarrow> float32"
  fadd :: "float32 \<Rightarrow> float32 \<Rightarrow> float32"

text \<open>
  The arithmetic of IEEE 754 binary32 with the default rounding (to nearest, ties to
  even). \<open>rne\<close> rounds a rational to the nearest integer, ties to the even one.
  \<open>round32\<close> rounds a rational to the nearest value with a 24-bit significand: the
  exponent \<open>e\<close> of the binade of the magnitude, no smaller than -126 (below that the
  values are subnormal), the spacing \<open>2 powi (e - 23)\<close> of the values in that binade,
  the nearest multiple of the spacing, and an infinity when that multiple reaches
  \<open>2 ^ 128\<close>.
\<close>

definition rne :: "rat \<Rightarrow> int" where
  "rne m =
    (let f = \<lfloor>m\<rfloor>; d = m - of_int f
     in if d < 1 / 2 then f else if 1 / 2 < d then f + 1 else if even f then f else f + 1)"

definition round32 :: "rat \<Rightarrow> float32" where
  "round32 q =
    (let a = \<bar>q\<bar>;
         e = bitlen \<lfloor>max 1 (a * 2 ^ 126)\<rfloor> - 127;
         ulp = 2 powi (e - 23);
         r = of_int (rne (a / ulp)) * ulp
     in if 2 ^ 128 \<le> r then (if 0 < q then PosInf else NegInf) else Finite (sgn q * r))"

text \<open>
  Products and sums: the exact result rounded; a NaN operand, zero times infinity and the
  sum of opposite infinities give a NaN.
\<close>

fun ieee_mul :: "float32 \<Rightarrow> float32 \<Rightarrow> float32" where
  "ieee_mul NaN b = NaN"
| "ieee_mul a NaN = NaN"
| "ieee_mul (Finite a) (Finite b) = round32 (a * b)"
| "ieee_mul (Finite a) PosInf = (if a = 0 then NaN else if 0 < a then PosInf else NegInf)"
| "ieee_mul (Finite a) NegInf = (if a = 0 then NaN else if 0 < a then NegInf else PosInf)"
| "ieee_mul PosInf (Finite b) = (if b = 0 then NaN else if 0 < b then PosInf else NegInf)"
| "ieee_mul NegInf (Finite b) = (if b = 0 then NaN else if 0 < b then NegInf else PosInf)"
| "ieee_mul PosInf PosInf = PosInf"
| "ieee_mul PosInf NegInf = NegInf"
| "ieee_mul NegInf PosInf = NegInf"
| "ieee_mul NegInf NegInf = PosInf"

fun ieee_add :: "float32 \<Rightarrow> float32 \<Rightarrow> float32" where
  "ieee_add NaN b = NaN"
| "ieee_add a NaN = NaN"
| "ieee_add (Finite a) (Finite b) = round32 (a + b)"
| "ieee_add (Finite a) PosInf = PosInf"
| "ieee_add (Finite a) NegInf = NegInf"
| "ieee_add PosInf NegInf = NaN"
| "ieee_add PosInf b = PosInf"
| "ieee_add NegInf PosInf = NaN"
| "ieee_add NegInf b = NegInf"

definition ieee :: float_arith where
  "ieee = \<lparr>fmul = ieee_mul, fadd = ieee_add\<rparr>"

definition kSize :: nat where "kSize = 100000000"

text \<open>
  \<open>std::transform(std::execution::par, first, last, first, op)\<close> applies \<open>op\<close> to
  every element and stores the result at the same position. With the parallel policy the
  standard library chooses in which order (and on which threads) the elements are
  processed; an application reads and writes its own element only. An execution is
  represented by the order in which the positions are processed: a list in which every
  position of the buffer occurs exactly once.
\<close>

definition transform_at :: "('a \<Rightarrow> 'a) \<Rightarrow> nat \<Rightarrow> 'a list \<Rightarrow> 'a list" where
  "transform_at f i buf = buf[i := f (buf ! i)]"

definition transform_par :: "nat list \<Rightarrow> ('a \<Rightarrow> 'a) \<Rightarrow> 'a list \<Rightarrow> 'a list" where
  "transform_par order f buf = fold (transform_at f) order buf"

definition is_schedule :: "nat \<Rightarrow> nat list \<Rightarrow> bool" where
  "is_schedule n order = (distinct order \<and> set order = {0..<n})"

text \<open>
  Modelled from the spec: \<open>std::reduce\<close> belongs to the standard parallel-execution
  facility, an external collaborator that is not part of the repository; its behaviour is
  taken from the C++ standard.
  \<open>std::reduce(std::execution::par, first, last, init)\<close> returns a generalized sum of
  \<open>init\<close> and the elements: the operands may be grouped and ordered in any way the
  library chooses. An execution is represented by the tree of additions it performs,
  whose leaves are \<open>init\<close> and reads of buffer positions. The function returns the
  value computed and the buffer as the reads leave it.
\<close>

datatype rtree = Init | Elem nat | Plus rtree rtree

fun reduce_par :: "rtree \<Rightarrow> ('a \<Rightarrow> 'a \<Rightarrow> 'a) \<Rightarrow> 'a list \<Rightarrow> 'a \<Rightarrow> 'a \<times> 'a list" where
  "reduce_par Init add buf init = (init, buf)"
| "reduce_par (Elem i) add buf init = (buf ! i, buf)"
| "reduce_par (Plus l r) add buf init =
    (let (a, buf1) = reduce_par l add buf init;
         (b, buf2) = reduce_par r add buf1 init
     in (add a b, buf2))"

text \<open>
  The operands of a reduction, in the order of the leaves of its tree (\<open>None\<close> stands
  for \<open>init\<close>). The tree is a grouping of a buffer of \<open>n\<close> elements when \<open>init\<close>
  and every position of the buffer occur exactly once among its leaves.
\<close>

fun leaves :: "rtree \<Rightarrow> nat option list" where
  "leaves Init = [None]"
| "leaves (Elem i) = [Some i]"
| "leaves (Plus l r) = leaves l @ leaves r"

definition is_grouping :: "nat \<Rightarrow> rtree \<Rightarrow> bool" where
  "is_grouping n tree = (distinct (leaves tree) \<and> set (leaves tree) = insert None (Some ` {0..<n}))"

text \<open>
  Three groupings. \<open>chain t lo n\<close> adds the \<open>n\<close> elements from position \<open>lo\<close> on
  to the sum \<open>t\<close>, one after the other. \<open>left_to_right\<close> adds all elements to \<open>init\<close>
  in this way; \<open>two_halves\<close> sums each half of the buffer from left to right and adds the
  two sums; \<open>in_blocks b\<close> sums every block of \<open>b\<close> consecutive elements from left to
  right and adds the sums of the blocks to \<open>init\<close> one after the other.
\<close>

fun chain :: "rtree \<Rightarrow> nat \<Rightarrow> nat \<Rightarrow> rtree" where
  "chain t lo 0 = t"
| "chain t lo (Suc n) = Plus (chain t lo n) (Elem (lo + n))"

definition left_to_right :: "nat \<Rightarrow> rtree" where
  "left_to_right n = chain Init 0 n"

definition two_halves :: "nat \<Rightarrow> rtree" where
  "two_halves n =
     Plus (chain Init 0 (n div 2)) (chain (Elem (n div 2)) (n div 2 + 1) (n - n div 2 - 1))"

fun blocks :: "rtree \<Rightarrow> nat \<Rightarrow> nat \<Rightarrow> rtree" where
  "blocks t b 0 = t"
| "blocks t b (Suc j) = Plus (blocks t b j) (chain (Elem (b * j)) (b * j + 1) (b - 1))"

definition in_blocks :: "nat \<Rightarrow> nat \<Rightarrow> rtree" where
  "in_blocks b n = blocks Init b (n div b)"

text \<open>
  The body of \<open>main\<close> up to the \<open>return\<close> statement: the values of the local variables
  \<open>sum\<close> and \<open>data\<close> at that point. The program catches no exception, so a run in
  which the allocation of the vector or one of the two algorithms fails is ended by the
  runtime before \<open>main\<close> returns; the definitions describe the runs that reach the
  \<open>return\<close> statement.
\<close>

definition stdpar_compute :: "float_arith \<Rightarrow> nat list \<Rightarrow> rtree \<Rightarrow> float32 \<times> float32 list" where
  "stdpar_compute ar order tree =
    (let data0 = replicate kSize (Finite 1);
         data1 = transform_par order (\<lambda>x. fmul ar x (Finite 2)) data0
     in reduce_par tree (fadd ar) data1 (Finite 0))"

definition stdpar_main :: "float_arith \<Rightarrow> nat list \<Rightarrow> rtree \<Rightarrow> int" where
  "stdpar_main ar order tree =
    (let (sum, data) = stdpar_compute ar order tree
     in if float_gt sum (Finite 0) then 0 else 1)"

text \<open>
  Two sets of values used in the proofs about sums of the doubled elements: zero, a number
  of at least 2 or plus infinity; and, without zero, a number of at least 2 or plus
  infinity.
\<close>

definition nonneg_sum :: "float32 \<Rightarrow> bool" where
  "nonneg_sum v = (v = PosInf \<or> (\<exists>q. v = Finite q \<and> (q = 0 \<or> 2 \<le> q)))"

definition pos_sum :: "float32 \<Rightarrow> bool" where
  "pos_sum v = (v = PosInf \<or> (\<exists>q. v = Finite q \<and> 2 \<le> q))"

section \<open>Properties of the dependency-check printer\<close>

lemma printer_main_appends:
  "printer_main w =
     (w\<lparr>w_cout := w_cout w @ concat (map (\<lambda>l. l @ [CHR 0x0A]) confirmation_strings)\<rparr>, 0)"
  by (simp add: printer_main_def confirmation_strings_def cout_str_def cout_endl_def)

lemma confirmation_strings_once:
  "map (\<lambda>l. occurrences l (concat (map (\<lambda>l. l @ [CHR 0x0A]) confirmation_strings)))
     confirmation_strings = replicate 7 1"
  by code_simp

text \<open>
  C4. Every run of the printer returns exit code 0. The bytes it writes to standard
  output are the seven messages in the order of the source, each followed by a line
  feed, and each message occurs exactly once in that text.
\<close>

theorem printer_output_each_string_once_in_order:
  "snd (printer_main w) = 0 \<and>
   w_cout (fst (printer_main w)) =
     w_cout w @ concat (map (\<lambda>l. l @ [CHR 0x0A]) confirmation_strings) \<and>
   map (\<lambda>l. occurrences l (concat (map (\<lambda>l. l @ [CHR 0x0A]) confirmation_strings)))
     confirmation_strings = replicate 7 1"
  by (simp add: printer_main_appends confirmation_strings_once)

text \<open>
  C5. The printer checks nothing: there is one fixed text such that, whatever the
  standard input, the environment and the files on disk are, a run appends exactly this
  text to standard output, changes nothing else, reads nothing and returns exit code 0.
\<close>

theorem printer_output_is_static:
  "\<exists>txt. \<forall>w. printer_main w = (w\<lparr>w_cout := w_cout w @ txt\<rparr>, 0)"
  using printer_main_appends by blast

section \<open>Properties of the lattice-Boltzmann smoke test\<close>

text \<open>The loop issues one \<open>collideAndStream\<close> call for every remaining value of its counter.\<close>

lemma collide_loop_run_calls:
  "collide_loop lib i s = run_calls lib (replicate (nat (iterations - i)) CollideAndStream) s"
proof (induction lib i s rule: collide_loop.induct)
  case (1 lib i s)
  show ?case
  proof (cases "i < iterations")
    case True
    then have n: "nat (iterations - i) = Suc (nat (iterations - (i + 1)))"
      by simp
    show ?thesis
    proof (cases "lib CollideAndStream s")
      case None
      with True n show ?thesis
        by (subst collide_loop.simps) simp
    next
      case (Some s')
      with True n "1.IH" [OF True, of s'] show ?thesis
        by (subst collide_loop.simps) simp
    qed
  next
    case False
    then show ?thesis
      by (subst collide_loop.simps) simp
  qed
qed

text \<open>Against any library, \<open>main\<close> behaves as the fixed list of 104 calls followed by \<open>return 0\<close>.\<close>

lemma palabos_main_run_calls:
  "palabos_main lib argc argv s =
     map_option (\<lambda>s'. (s', 0))
       (run_calls lib
          ([PlbInit argc argv, NewAcceleratedBGKdynamics 1, NewMultiBlockLattice3D 100 100 100,
            Initialize] @ replicate 100 CollideAndStream) s)"
proof -
  define cs where "cs = replicate 100 CollideAndStream"
  have loop: "collide_loop lib 0 t = run_calls lib cs t" for t
    by (simp add: collide_loop_run_calls iterations_def cs_def)
  have "palabos_main lib argc argv s =
     map_option (\<lambda>s'. (s', 0))
       (run_calls lib
          ([PlbInit argc argv, NewAcceleratedBGKdynamics 1, NewMultiBlockLattice3D 100 100 100,
            Initialize] @ cs) s)"
    by (simp add: palabos_main_def loop omega_def nx_def ny_def nz_def split: bind_splits)
  then show ?thesis
    by (simp only: cs_def)
qed

lemma run_calls_traced:
  "run_calls (traced lib) cs (tr, s) = map_option (\<lambda>s'. (tr @ cs, s')) (run_calls lib cs s)"
  by (induction cs arbitrary: tr s) (auto simp: traced_def split: bind_splits)

lemma run_calls_total:
  "(\<And>c s. lib c s \<noteq> None) \<Longrightarrow> \<exists>s'. run_calls lib cs s = Some s'"
proof (induction cs arbitrary: s)
  case Nil
  show ?case by simp
next
  case (Cons c cs)
  from Cons.prems obtain s1 where "lib c s = Some s1"
    by (meson option.exhaust)
  moreover from Cons.IH [OF Cons.prems] obtain s2 where "run_calls lib cs s1 = Some s2"
    by blast
  ultimately show ?case by simp
qed

lemma count_list_replicate:
  "count_list (replicate n x) y = (if x = y then n else 0)"
  by (induction n) auto

text \<open>Two concrete runs, evaluated: one without arguments, one with two arguments.\<close>

lemma counting_run_no_arguments:
  "palabos_main (traced counting_library) 1 [''palabos_minimal''] ([], 0) =
     Some (([PlbInit 1 [''palabos_minimal''], NewAcceleratedBGKdynamics 1,
             NewMultiBlockLattice3D 100 100 100, Initialize] @ replicate 100 CollideAndStream,
            104), 0)"
  by code_simp

lemma counting_run_two_arguments:
  "palabos_main (traced counting_library) 3 [''palabos_minimal'', ''--nx'', ''7''] ([], 5) =
     Some (([PlbInit 3 [''palabos_minimal'', ''--nx'', ''7''], NewAcceleratedBGKdynamics 1,
             NewMultiBlockLattice3D 100 100 100, Initialize] @ replicate 100 CollideAndStream,
            109), 0)"
  by code_simp

text \<open>
  C6. The inputs of the test are constants of the program. Whatever the library does
  and whatever the command line is, a run that completes has constructed the dynamics
  with relaxation parameter 1, the lattice with dimensions 100, 100 and 100, and has made
  100 collide-and-stream calls; what \<open>main\<close> returns is the exit code 0 and nothing else.
\<close>

theorem palabos_inputs_are_constants:
  assumes "palabos_main (traced lib) argc argv ([], s) = Some ((tr, s'), rc)"
  shows "rc = 0 \<and>
     tr = [PlbInit argc argv, NewAcceleratedBGKdynamics 1, NewMultiBlockLattice3D 100 100 100,
           Initialize] @ replicate 100 CollideAndStream"
  using assms unfolding palabos_main_run_calls run_calls_traced by auto

theorem palabos_inputs_are_constants_witness:
  "\<exists>tr s' rc.
     palabos_main (traced counting_library) 1 [''palabos_minimal''] ([], 0) = Some ((tr, s'), rc) \<and>
     rc = 0 \<and>
     tr = [PlbInit 1 [''palabos_minimal''], NewAcceleratedBGKdynamics 1,
           NewMultiBlockLattice3D 100 100 100, Initialize] @ replicate 100 CollideAndStream"
  using counting_run_no_arguments
    palabos_inputs_are_constants [OF counting_run_no_arguments]
  by blast

text \<open>
  C7. The test terminates. If every call into the library returns, then \<open>main\<close> returns,
  with exit code 0, after making its calls in this order: the library's init routine, the
  construction of the dynamics and of the lattice, one \<open>initialize\<close>, and then 100 times
  \<open>collideAndStream\<close>; \<open>initialize\<close> is called exactly once and \<open>collideAndStream\<close>
  exactly 100 times.
\<close>

theorem palabos_terminates_after_fixed_steps:
  assumes "\<forall>c s. lib c s \<noteq> None"
  shows "\<exists>tr s'.
     palabos_main (traced lib) argc argv ([], s) = Some ((tr, s'), 0) \<and>
     tr = PlbInit argc argv # NewAcceleratedBGKdynamics omega # NewMultiBlockLattice3D nx ny nz #
          Initialize # replicate (nat iterations) CollideAndStream \<and>
     count_list tr (PlbInit argc argv) = 1 \<and>
     count_list tr (NewMultiBlockLattice3D nx ny nz) = 1 \<and>
     count_list tr Initialize = 1 \<and>
     count_list tr CollideAndStream = 100"
proof -
  let ?cs = "[PlbInit argc argv, NewAcceleratedBGKdynamics 1, NewMultiBlockLattice3D 100 100 100,
              Initialize] @ replicate 100 CollideAndStream"
  from assms obtain s' where "run_calls lib ?cs s = Some s'"
    using run_calls_total [of lib ?cs s] by blast
  then have "palabos_main (traced lib) argc argv ([], s) = Some ((?cs, s'), 0)"
    unfolding palabos_main_run_calls run_calls_traced by simp
  then show ?thesis
    by (simp add: omega_def nx_def ny_def nz_def iterations_def count_list_replicate)
qed

theorem palabos_terminates_after_fixed_steps_witness:
  "(\<forall>c s. counting_library c s \<noteq> None) \<and>
   (\<exists>tr s'.
     palabos_main (traced counting_library) 1 [''palabos_minimal''] ([], 0) = Some ((tr, s'), 0) \<and>
     tr = PlbInit 1 [''palabos_minimal''] # NewAcceleratedBGKdynamics omega #
          NewMultiBlockLattice3D nx ny nz # Initialize #
          replicate (nat iterations) CollideAndStream \<and>
     count_list tr (PlbInit 1 [''palabos_minimal'']) = 1 \<and>
     count_list tr (NewMultiBlockLattice3D nx ny nz) = 1 \<and>
     count_list tr Initialize = 1 \<and>
     count_list tr CollideAndStream = 100)"
proof -
  have h: "\<forall>c s. counting_library c s \<noteq> None"
    by (simp add: counting_library_def)
  from h palabos_terminates_after_fixed_steps [OF h, of 1 "[''palabos_minimal'']" 0]
  show ?thesis by (rule conjI)
qed

text \<open>
  C9. The test defines no command-line flags. In any two runs that complete, whatever the
  command lines and the libraries are, the first call hands \<open>argc\<close> and \<open>argv\<close> as
  received to the library's init routine, and all further calls are the same in both
  runs: relaxation parameter 1, dimensions 100, 100 and 100, 100 collide-and-stream
  calls; both runs return the same exit code.
\<close>

theorem palabos_command_line_only_passed_through:
  assumes "palabos_main (traced lib) argc argv ([], s) = Some ((tr, s'), rc)"
    and "palabos_main (traced lib') argc' argv' ([], t) = Some ((tr', t'), rc')"
  shows "hd tr = PlbInit argc argv \<and> hd tr' = PlbInit argc' argv' \<and>
     tl tr = tl tr' \<and> rc = rc' \<and>
     tl tr = NewAcceleratedBGKdynamics 1 # NewMultiBlockLattice3D 100 100 100 # Initialize #
             replicate 100 CollideAndStream"
  using assms unfolding palabos_main_run_calls run_calls_traced by auto

theorem palabos_command_line_only_passed_through_witness:
  "\<exists>tr s' rc tr' t' rc'.
     palabos_main (traced counting_library) 1 [''palabos_minimal''] ([], 0) = Some ((tr, s'), rc) \<and>
     palabos_main (traced counting_library) 3 [''palabos_minimal'', ''--nx'', ''7''] ([], 5) =
       Some ((tr', t'), rc') \<and>
     hd tr = PlbInit 1 [''palabos_minimal''] \<and>
     hd tr' = PlbInit 3 [''palabos_minimal'', ''--nx'', ''7''] \<and>
     tl tr = tl tr' \<and> rc = rc' \<and>
     tl tr = NewAcceleratedBGKdynamics 1 # NewMultiBlockLattice3D 100 100 100 # Initialize #
             replicate 100 CollideAndStream"
  using counting_run_no_arguments counting_run_two_arguments
    palabos_command_line_only_passed_through
      [OF counting_run_no_arguments counting_run_two_arguments]
  by blast

section \<open>Properties of the parallel-algorithms smoke test\<close>

text \<open>
  Processing distinct positions in any order leaves the length alone, applies the
  function once to the original value of every processed position, and keeps the others.
\<close>

lemma fold_transform_at:
  "distinct order \<Longrightarrow>
     length (fold (transform_at f) order buf) = length buf \<and>
     (\<forall>i<length buf. fold (transform_at f) order buf ! i =
        (if i \<in> set order then f (buf ! i) else buf ! i))"
proof (induction order arbitrary: buf)
  case Nil
  show ?case by simp
next
  case (Cons j order)
  from Cons.prems have d: "distinct order" and j: "j \<notin> set order"
    by simp_all
  let ?b = "transform_at f j buf"
  have len: "length ?b = length buf"
    by (simp add: transform_at_def)
  from Cons.IH [OF d, of ?b] len
  have IH: "length (fold (transform_at f) order ?b) = length buf"
    "\<And>i. i < length buf \<Longrightarrow> fold (transform_at f) order ?b ! i =
        (if i \<in> set order then f (?b ! i) else ?b ! i)"
    by simp_all
  show ?case
  proof (intro conjI allI impI)
    show "length (fold (transform_at f) (j # order) buf) = length buf"
      using IH(1) by simp
  next
    fix i assume i: "i < length buf"
    show "fold (transform_at f) (j # order) buf ! i =
        (if i \<in> set (j # order) then f (buf ! i) else buf ! i)"
    proof (cases "i = j")
      case True
      with i j IH(2) [OF i] show ?thesis
        by (simp add: transform_at_def)
    next
      case False
      with i IH(2) [OF i] show ?thesis
        by (simp add: transform_at_def)
    qed
  qed
qed

lemma length_transform_par: "length (transform_par order f buf) = length buf"
  unfolding transform_par_def
  by (induction order arbitrary: buf) (simp_all add: transform_at_def)

lemma transform_par_map:
  assumes "is_schedule (length buf) order"
  shows "transform_par order f buf = map f buf"
proof (rule nth_equalityI)
  show "length (transform_par order f buf) = length (map f buf)"
    by (simp add: length_transform_par)
next
  fix i assume "i < length (transform_par order f buf)"
  then have i: "i < length buf"
    by (simp add: length_transform_par)
  with assms have "i \<in> set order" and "distinct order"
    by (simp_all add: is_schedule_def)
  with i fold_transform_at [of order f buf] show "transform_par order f buf ! i = map f buf ! i"
    by (simp add: transform_par_def)
qed

text \<open>The reads of a reduction leave the buffer as it was.\<close>

lemma reduce_par_frame: "snd (reduce_par tree add buf init) = buf"
  by (induction tree arbitrary: buf) (simp_all add: split_beta)

lemma float_gt_zero:
  "float_gt v (Finite 0) =
     (case v of Finite q \<Rightarrow> 0 < q | PosInf \<Rightarrow> True | NegInf \<Rightarrow> False | NaN \<Rightarrow> False)"
  by (cases v) simp_all

text \<open>
  C2. The exit code of the test is a function of the sign of the reduced sum, whatever
  sum the arithmetic, the processing order and the grouping of the reduction produce: it is
  0 when the sum is a positive number or plus infinity, and 1 when the sum is zero, negative,
  minus infinity or a NaN. No other exit code is possible.
\<close>

theorem stdpar_exit_code_by_sign_of_sum:
  "stdpar_main ar order tree \<in> {0, 1} \<and>
   stdpar_main ar order tree =
     (case fst (stdpar_compute ar order tree) of
        Finite q \<Rightarrow> if 0 < q then 0 else 1
      | PosInf \<Rightarrow> 0
      | NegInf \<Rightarrow> 1
      | NaN \<Rightarrow> 1)"
  by (simp add: stdpar_main_def split_beta float_gt_zero split: float32.splits)

section \<open>Properties of binary32 rounding\<close>

lemma rne_of_int [simp]: "rne (of_int j) = j"
  by (simp add: rne_def)

lemma rne_ge_floor: "\<lfloor>m\<rfloor> \<le> rne m"
  by (simp add: rne_def Let_def)

lemma bitlen_eqI:
  assumes "2 ^ n \<le> x" and "x < 2 ^ Suc n"
  shows "bitlen x = int n + 1"
proof -
  have "(0::int) < 2 ^ n" by simp
  with assms have x: "0 < x" by linarith
  let ?b = "bitlen x"
  from bitlen_bounds [OF x] have lo: "2 ^ nat (?b - 1) \<le> x" and hi: "x < 2 ^ nat ?b"
    by simp_all
  from assms(1) hi have "(2::int) ^ n < 2 ^ nat ?b" by linarith
  then have 1: "n < nat ?b" by (rule power_less_imp_less_exp [rotated]) simp
  from lo assms(2) have "(2::int) ^ nat (?b - 1) < 2 ^ Suc n" by linarith
  then have 2: "nat (?b - 1) < Suc n" by (rule power_less_imp_less_exp [rotated]) simp
  from 1 2 show ?thesis by linarith
qed

lemma round32_binade:
  assumes lo: "2 ^ k \<le> a" and hi: "a < 2 ^ Suc k"
  shows "round32 a =
    (let r = of_int (rne (a / 2 powi (int k - 23))) * 2 powi (int k - 23)
     in if 2 ^ 128 \<le> r then PosInf else Finite r)"
proof -
  have "(0::rat) < 2 ^ k" by simp
  with lo have pos: "0 < a" by linarith
  have "(2::rat) ^ (k + 126) \<le> a * 2 ^ 126"
    using lo by (simp add: power_add)
  moreover have "a * 2 ^ 126 < 2 ^ Suc (k + 126)"
    using hi by (simp add: power_add)
  moreover have "(1::rat) \<le> 2 ^ (k + 126)" by simp
  ultimately have m: "max 1 (a * 2 ^ 126) = a * 2 ^ 126"
    and l: "(2::rat) ^ (k + 126) \<le> a * 2 ^ 126" and h: "a * 2 ^ 126 < 2 ^ Suc (k + 126)"
    by linarith+
  have "(2::int) ^ (k + 126) \<le> \<lfloor>a * 2 ^ 126\<rfloor>"
    using l by (simp add: le_floor_iff)
  moreover have "\<lfloor>a * 2 ^ 126\<rfloor> < (2::int) ^ Suc (k + 126)"
    using h by (simp add: floor_less_iff)
  ultimately have "bitlen \<lfloor>a * 2 ^ 126\<rfloor> = int (k + 126) + 1"
    by (rule bitlen_eqI)
  then have "bitlen \<lfloor>a * 2 ^ 126\<rfloor> - 127 = int k"
    by simp
  then have e: "bitlen \<lfloor>max 1 (\<bar>a\<bar> * 2 ^ 126)\<rfloor> - 127 = int k"
    using pos by (simp only: m abs_of_pos)
  show ?thesis
    unfolding round32_def Let_def e using pos by simp
qed

lemma round32_exact_nat:
  assumes lo: "2 ^ k \<le> N" and hi: "N < 2 ^ Suc k" and k: "k \<le> 127"
    and d: "k \<le> 23 \<or> 2 ^ (k - 23) dvd N"
  shows "round32 (of_nat N) = Finite (of_nat N)"
proof -
  have lo': "(2::rat) ^ k \<le> of_nat N"
    using lo by (metis of_nat_le_iff of_nat_numeral of_nat_power)
  have hi': "(of_nat N :: rat) < 2 ^ Suc k"
    using hi by (metis of_nat_less_iff of_nat_numeral of_nat_power)
  have "\<exists>j::int. of_nat N / 2 powi (int k - 23) = (of_int j :: rat)"
  proof (cases "k \<le> 23")
    case True
    then have "(2::rat) powi (int k - 23) = 1 / 2 ^ (23 - k)"
      by (simp add: power_int_def inverse_eq_divide power_one_over nat_diff_distrib')
    then have "of_nat N / 2 powi (int k - 23) = (of_int (int N * 2 ^ (23 - k)) :: rat)"
      by simp
    then show ?thesis ..
  next
    case False
    with d obtain j where j: "N = 2 ^ (k - 23) * j"
      by (auto simp: dvd_def)
    from False have "(2::rat) powi (int k - 23) = 2 ^ (k - 23)"
      by (simp add: power_int_def nat_diff_distrib')
    with j have "of_nat N / 2 powi (int k - 23) = (of_int (int j) :: rat)"
      by simp
    then show ?thesis ..
  qed
  then obtain j :: int where j: "of_nat N / 2 powi (int k - 23) = (of_int j :: rat)" ..
  have u: "(2::rat) powi (int k - 23) \<noteq> 0" by simp
  from j u have r: "of_int j * 2 powi (int k - 23) = (of_nat N :: rat)"
    by (metis nonzero_divide_eq_eq)
  have "(2::rat) ^ Suc k \<le> 2 ^ 128"
    using k by (intro power_increasing) simp_all
  with hi' have small: "\<not> (2::rat) ^ 128 \<le> of_nat N" by linarith
  show ?thesis
    using small by (simp add: round32_binade [OF lo' hi'] j r Let_def)
qed

lemma round32_tie: "round32 33554434 = Finite 33554432"
  by code_simp

lemma round32_ge_two:
  assumes "2 \<le> a"
  shows "round32 a = PosInf \<or> (\<exists>r. round32 a = Finite r \<and> 2 \<le> r)"
proof -
  let ?x = "\<lfloor>a\<rfloor>"
  from assms have x: "2 \<le> ?x" by (simp add: le_floor_iff)
  then have x0: "0 < ?x" by simp
  define k where "k = nat (bitlen ?x - 1)"
  from bitlen_bounds [OF x0] have b: "2 ^ k \<le> ?x" "?x < 2 ^ nat (bitlen ?x)"
    by (simp_all add: k_def)
  from x0 have "1 \<le> bitlen ?x"
    by (smt (verit) bitlen_eq_zero_iff bitlen_nonneg)
  then have "nat (bitlen ?x) = Suc k"
    by (simp add: k_def)
  with b have b2: "?x < 2 ^ Suc k" by simp
  have lo: "(2::rat) ^ k \<le> a"
  proof -
    from b(1) have "(of_int (2 ^ k) :: rat) \<le> of_int ?x" by (simp only: of_int_le_iff)
    also have "\<dots> \<le> a" by simp
    finally show ?thesis by simp
  qed
  have hi: "a < 2 ^ Suc k"
  proof -
    from b2 have "?x + 1 \<le> 2 ^ Suc k" by simp
    then have "(of_int (?x + 1) :: rat) \<le> of_int (2 ^ Suc k)" by (simp only: of_int_le_iff)
    moreover have "a < of_int (?x + 1)" using floor_correct [of a] by simp
    ultimately show ?thesis by simp
  qed
  have k1: "1 \<le> k"
  proof (rule ccontr)
    assume "\<not> 1 \<le> k"
    then have "k = 0" by simp
    with hi assms show False by simp
  qed
  let ?u = "(2::rat) powi (int k - 23)"
  have u: "0 < ?u" by simp
  have uk: "2 ^ 23 * ?u = 2 ^ k"
  proof -
    have "(2::rat) powi (int 23 + (int k - 23)) = 2 powi (int 23) * ?u"
      by (subst power_int_add) simp_all
    then show ?thesis by simp
  qed
  have "2 ^ 23 \<le> a / ?u"
    using lo u uk by (simp add: pos_le_divide_eq)
  then have "(2::int) ^ 23 \<le> \<lfloor>a / ?u\<rfloor>"
    by (simp add: le_floor_iff)
  with rne_ge_floor [of "a / ?u"] have "(2::int) ^ 23 \<le> rne (a / ?u)"
    by linarith
  then have "(of_int (2 ^ 23) :: rat) \<le> of_int (rne (a / ?u))"
    by (simp only: of_int_le_iff)
  then have "2 ^ 23 * ?u \<le> of_int (rne (a / ?u)) * ?u"
    using u by simp
  with uk have "(2::rat) ^ k \<le> of_int (rne (a / ?u)) * ?u"
    by simp
  moreover have "(2::rat) ^ 1 \<le> 2 ^ k"
    using k1 by (intro power_increasing) simp_all
  ultimately have "2 \<le> of_int (rne (a / ?u)) * ?u"
    by simp
  then show ?thesis
    by (simp add: round32_binade [OF lo hi] Let_def)
qed

lemma round32_zero: "round32 0 = Finite 0"
  by code_simp

lemma round32_two: "round32 2 = Finite 2"
  by code_simp

lemma round32_two_pow_26: "round32 67108864 = Finite 67108864"
  by code_simp

lemma round32_even:
  assumes "0 < n" and "n \<le> 2 ^ 24"
  shows "round32 (of_nat (2 * n)) = Finite (of_nat (2 * n))"
proof -
  from assms(1) obtain k where k: "2 ^ k \<le> 2 * n" "2 * n < 2 ^ Suc k"
    using ex_power_ivl1 [of 2 "2 * n"] by auto
  from assms(2) have le: "2 * n \<le> 2 ^ 25" by simp
  with k(1) have "(2::nat) ^ k < 2 ^ 26" by simp
  then have k26: "k < 26" by (rule power_less_imp_less_exp [rotated]) simp
  have "k \<le> 23 \<or> 2 ^ (k - 23) dvd 2 * n"
  proof (cases "k \<le> 23")
    case True
    then show ?thesis ..
  next
    case False
    with k26 consider "k = 24" | "k = 25" by linarith
    then show ?thesis
    proof cases
      case 1
      then show ?thesis by simp
    next
      case 2
      with k(1) le have "2 * n = 2 ^ 25" by simp
      with 2 show ?thesis by simp
    qed
  qed
  moreover from k26 have "k \<le> 127" by simp
  ultimately show ?thesis
    using k by (intro round32_exact_nat)
qed

lemma round32_mult_512:
  assumes "0 < j" and "j \<le> 2 ^ 19"
  shows "round32 (of_nat (512 * j)) = Finite (of_nat (512 * j))"
proof -
  from assms(1) obtain k where k: "2 ^ k \<le> 512 * j" "512 * j < 2 ^ Suc k"
    using ex_power_ivl1 [of 2 "512 * j"] by auto
  from assms(2) have "512 * j \<le> 2 ^ 28" by simp
  with k(1) have "(2::nat) ^ k < 2 ^ 29" by simp
  then have k29: "k < 29" by (rule power_less_imp_less_exp [rotated]) simp
  then have "k - 23 \<le> 9" by simp
  then have "(2::nat) ^ (k - 23) dvd 2 ^ 9" by (rule le_imp_power_dvd)
  then have "2 ^ (k - 23) dvd 512 * j" by simp
  then have d: "k \<le> 23 \<or> 2 ^ (k - 23) dvd 512 * j" ..
  from k29 have "k \<le> 127" by simp
  then show ?thesis
    using d by (intro round32_exact_nat [OF k])
qed

section \<open>Sums of the doubled elements under the three groupings\<close>

lemma fst_reduce_par_Plus:
  "fst (reduce_par (Plus l r) add buf init) =
     add (fst (reduce_par l add buf init)) (fst (reduce_par r add buf init))"
  using reduce_par_frame [of l add buf init] by (simp add: split_beta)

lemma chain_sum:
  assumes t: "fst (reduce_par t ieee_add (replicate K (Finite 2)) init) = Finite (of_nat (2 * s))"
    and s: "s \<le> 2 ^ 24"
    and n: "lo + n \<le> K"
  shows "fst (reduce_par (chain t lo n) ieee_add (replicate K (Finite 2)) init) =
     Finite (of_nat (min (2 * (s + n)) (2 ^ 25)))"
  using n
proof (induction n)
  case 0
  from s have "min (2 * (s + 0)) (2 ^ 25) = 2 * s" by simp
  with t show ?case by (simp only: chain.simps)
next
  case (Suc n)
  then have IH: "fst (reduce_par (chain t lo n) ieee_add (replicate K (Finite 2)) init) =
     Finite (of_nat (min (2 * (s + n)) (2 ^ 25)))"
    and i: "lo + n < K"
    by simp_all
  have "fst (reduce_par (Elem (lo + n)) ieee_add (replicate K (Finite 2)) init) = Finite 2"
    using i by simp
  with IH have step: "fst (reduce_par (chain t lo (Suc n)) ieee_add (replicate K (Finite 2)) init) =
     round32 (of_nat (min (2 * (s + n)) (2 ^ 25)) + 2)"
    by (simp only: chain.simps fst_reduce_par_Plus ieee_add.simps)
  show ?case
  proof (cases "2 * (s + n) < 2 ^ 25")
    case True
    then have le: "s + n + 1 \<le> 2 ^ 24" by simp
    from True have m: "min (2 * (s + n)) (2 ^ 25) = 2 * (s + n)" by simp
    from le have m': "min (2 * (s + Suc n)) (2 ^ 25) = 2 * (s + n + 1)" by simp
    have "(of_nat (2 * (s + n)) :: rat) + 2 = of_nat (2 * (s + n + 1))" by simp
    then have "round32 (of_nat (min (2 * (s + n)) (2 ^ 25)) + 2) =
        Finite (of_nat (2 * (s + n + 1)))"
      using round32_even [of "s + n + 1"] le by (simp only: m)
    with step show ?thesis by (simp only: m')
  next
    case False
    then have m: "min (2 * (s + n)) (2 ^ 25) = 2 ^ 25"
      and m': "min (2 * (s + Suc n)) (2 ^ 25) = 2 ^ 25" by simp_all
    have "(of_nat (min (2 * (s + n)) (2 ^ 25)) :: rat) + 2 = 33554434"
      by (simp only: m) simp
    then have "round32 (of_nat (min (2 * (s + n)) (2 ^ 25)) + 2) = Finite (of_nat (2 ^ 25))"
      by (simp only: round32_tie) simp
    with step show ?thesis by (simp only: m')
  qed
qed

lemma left_to_right_sum:
  assumes "n \<le> K"
  shows "fst (reduce_par (left_to_right n) ieee_add (replicate K (Finite 2)) (Finite 0)) =
     Finite (of_nat (min (2 * n) (2 ^ 25)))"
  using chain_sum [of Init K "Finite 0" 0 0 n] assms by (simp add: left_to_right_def)

lemma right_chain_sum:
  assumes "lo + 1 + n \<le> K"
  shows "fst (reduce_par (chain (Elem lo) (lo + 1) n) ieee_add (replicate K (Finite 2)) (Finite 0)) =
     Finite (of_nat (min (2 * (1 + n)) (2 ^ 25)))"
  using chain_sum [of "Elem lo" K "Finite 0" 1 "lo + 1" n] assms by simp

lemma two_halves_sum:
  assumes "2 ^ 25 \<le> n" and "n \<le> K"
  shows "fst (reduce_par (two_halves n) ieee_add (replicate K (Finite 2)) (Finite 0)) =
     Finite 67108864"
proof -
  let ?h = "n div 2"
  from assms have h: "2 ^ 24 \<le> ?h" "?h \<le> K" by simp_all
  from assms have r: "?h + 1 + (n - ?h - 1) \<le> K" "2 ^ 24 \<le> 1 + (n - ?h - 1)" by simp_all
  from h have a: "min (2 * ?h) (2 ^ 25) = 2 ^ 25" by simp
  from r(2) have b: "min (2 * (1 + (n - ?h - 1))) (2 ^ 25) = 2 ^ 25" by simp
  have "fst (reduce_par (two_halves n) ieee_add (replicate K (Finite 2)) (Finite 0)) =
    ieee_add (Finite (of_nat (2 ^ 25))) (Finite (of_nat (2 ^ 25)))"
    unfolding two_halves_def fst_reduce_par_Plus
    using left_to_right_sum [OF h(2)] right_chain_sum [OF r(1)]
    by (simp only: left_to_right_def a b)
  also have "\<dots> = Finite 67108864"
    using round32_two_pow_26 by simp
  finally show ?thesis .
qed

lemma leaves_chain: "leaves (chain t lo n) = leaves t @ map Some [lo..<lo + n]"
  by (induction n) simp_all

lemma is_grouping_left_to_right: "is_grouping n (left_to_right n)"
  by (auto simp: is_grouping_def left_to_right_def leaves_chain distinct_map)

lemma is_grouping_two_halves:
  assumes "0 < n"
  shows "is_grouping n (two_halves n)"
proof -
  let ?h = "n div 2"
  from assms have h: "?h < n" by simp
  then have e: "?h + 1 + (n - ?h - 1) = n" by simp
  have "leaves (two_halves n) =
      (leaves Init @ map Some [0..<0 + ?h]) @
      (leaves (Elem ?h) @ map Some [?h + 1..<?h + 1 + (n - ?h - 1)])"
    by (simp only: two_halves_def leaves.simps leaves_chain)
  then have l: "leaves (two_halves n) = None # map Some ([0..<?h] @ ?h # [?h + 1..<n])"
    by (simp only: e) simp
  have "[0..<?h + (n - ?h)] = [0..<?h] @ [?h..<?h + (n - ?h)]"
    by (rule upt_add_eq_append) simp
  moreover have "[?h..<n] = ?h # [?h + 1..<n]"
    using h by (simp add: upt_conv_Cons)
  ultimately have u: "[0..<?h] @ ?h # [?h + 1..<n] = [0..<n]"
    using h by simp
  have "leaves (two_halves n) = None # map Some [0..<n]"
    using l unfolding u .
  then show ?thesis
    by (auto simp: is_grouping_def distinct_map)
qed

lemma is_schedule_upt: "is_schedule n [0..<n]"
  by (simp add: is_schedule_def)

lemma blocks_sum:
  assumes "256 * j \<le> K" and "j \<le> 2 ^ 19"
  shows "fst (reduce_par (blocks Init 256 j) ieee_add (replicate K (Finite 2)) (Finite 0)) =
     Finite (of_nat (512 * j))"
  using assms
proof (induction j)
  case 0
  show ?case by simp
next
  case (Suc j)
  then have IH: "fst (reduce_par (blocks Init 256 j) ieee_add (replicate K (Finite 2)) (Finite 0)) =
     Finite (of_nat (512 * j))"
    and K: "256 * j + 1 + 255 \<le> K" and j: "Suc j \<le> 2 ^ 19"
    by simp_all
  have "fst (reduce_par (chain (Elem (256 * j)) (256 * j + 1) 255) ieee_add
      (replicate K (Finite 2)) (Finite 0)) = Finite (of_nat (min (2 * (1 + 255)) (2 ^ 25)))"
    using K by (rule right_chain_sum)
  then have b: "fst (reduce_par (chain (Elem (256 * j)) (256 * j + 1) (256 - 1)) ieee_add
      (replicate K (Finite 2)) (Finite 0)) = Finite 512"
    by simp
  have "fst (reduce_par (blocks Init 256 (Suc j)) ieee_add (replicate K (Finite 2)) (Finite 0)) =
      ieee_add (Finite (of_nat (512 * j))) (Finite 512)"
    by (simp only: blocks.simps fst_reduce_par_Plus IH b)
  also have "\<dots> = round32 (of_nat (512 * Suc j))"
  proof -
    have "(of_nat (512 * j) :: rat) + 512 = of_nat (512 * Suc j)" by simp
    then show ?thesis by (simp only: ieee_add.simps)
  qed
  also have "\<dots> = Finite (of_nat (512 * Suc j))"
    using j by (intro round32_mult_512) simp_all
  finally show ?case .
qed

lemma leaves_blocks:
  assumes "0 < b"
  shows "leaves (blocks Init b j) = None # map Some [0..<b * j]"
proof (induction j)
  case 0
  show ?case by simp
next
  case (Suc j)
  from assms have e: "b * j + 1 + (b - 1) = b * j + b" by simp
  have "leaves (blocks Init b (Suc j)) =
      leaves (blocks Init b j) @ (leaves (Elem (b * j)) @ map Some [b * j + 1..<b * j + 1 + (b - 1)])"
    by (simp only: blocks.simps leaves.simps leaves_chain)
  also have "\<dots> = None # map Some ([0..<b * j] @ b * j # [b * j + 1..<b * j + b])"
    by (simp only: Suc.IH e) simp
  also have "[0..<b * j] @ b * j # [b * j + 1..<b * j + b] = [0..<b * j + b]"
  proof -
    have "[0..<b * j + b] = [0..<b * j] @ [b * j..<b * j + b]"
      by (rule upt_add_eq_append) simp
    moreover have "[b * j..<b * j + b] = b * j # [b * j + 1..<b * j + b]"
      using assms by (simp add: upt_conv_Cons)
    ultimately show ?thesis by simp
  qed
  finally show ?case by (simp add: add.commute)
qed

lemma is_grouping_in_blocks:
  assumes "0 < b" and "b dvd n"
  shows "is_grouping n (in_blocks b n)"
proof -
  from assms(2) have "b * (n div b) = n" by simp
  with leaves_blocks [OF assms(1), of "n div b"]
  have "leaves (in_blocks b n) = None # map Some [0..<n]"
    by (simp add: in_blocks_def)
  then show ?thesis
    by (auto simp: is_grouping_def distinct_map)
qed

section \<open>The test under binary32 arithmetic\<close>

lemma transformed_ieee:
  assumes "is_schedule kSize order"
  shows "transform_par order (\<lambda>x. fmul ieee x (Finite 2)) (replicate kSize (Finite 1)) =
     replicate kSize (Finite 2)"
proof -
  have "transform_par order (\<lambda>x. fmul ieee x (Finite 2)) (replicate kSize (Finite 1)) =
      map (\<lambda>x. fmul ieee x (Finite 2)) (replicate kSize (Finite 1))"
    using assms by (intro transform_par_map) simp
  then show ?thesis
    by (simp add: ieee_def round32_two)
qed

lemma stdpar_compute_ieee:
  assumes "is_schedule kSize order"
  shows "stdpar_compute ieee order tree =
     reduce_par tree ieee_add (replicate kSize (Finite 2)) (Finite 0)"
  using transformed_ieee [OF assms] by (simp add: stdpar_compute_def Let_def ieee_def)

lemma ieee_add_nonneg:
  assumes "nonneg_sum a" and "nonneg_sum b"
  shows "nonneg_sum (ieee_add a b)"
    and "pos_sum a \<or> pos_sum b \<Longrightarrow> pos_sum (ieee_add a b)"
proof -
  show "nonneg_sum (ieee_add a b)"
  proof (cases a)
    case (Finite x)
    note a = this
    show ?thesis
    proof (cases b)
      case (Finite y)
      with a assms have "x + y = 0 \<or> 2 \<le> x + y"
        by (auto simp: nonneg_sum_def)
      then show ?thesis
        using round32_ge_two [of "x + y"] a Finite
        by (auto simp: nonneg_sum_def round32_zero)
    qed (use a assms in \<open>auto simp: nonneg_sum_def\<close>)
  qed (use assms in \<open>auto simp: nonneg_sum_def\<close>)
  show "pos_sum (ieee_add a b)" if "pos_sum a \<or> pos_sum b"
  proof (cases a)
    case (Finite x)
    note a = this
    show ?thesis
    proof (cases b)
      case (Finite y)
      with a assms that have "2 \<le> x + y"
        by (auto simp: nonneg_sum_def pos_sum_def)
      then show ?thesis
        using round32_ge_two [of "x + y"] a Finite
        by (auto simp: pos_sum_def)
    qed (use a assms in \<open>auto simp: nonneg_sum_def pos_sum_def\<close>)
  qed (use assms in \<open>auto simp: nonneg_sum_def pos_sum_def\<close>)
qed

lemma tree_sum_sign:
  assumes "\<And>i. Some i \<in> set (leaves t) \<Longrightarrow> i < K"
  shows "nonneg_sum (fst (reduce_par t ieee_add (replicate K (Finite 2)) (Finite 0))) \<and>
     ((\<exists>i. Some i \<in> set (leaves t)) \<longrightarrow>
        pos_sum (fst (reduce_par t ieee_add (replicate K (Finite 2)) (Finite 0))))"
  using assms
proof (induction t)
  case Init
  show ?case by (simp add: nonneg_sum_def)
next
  case (Elem i)
  then have "i < K" by simp
  then show ?case by (simp add: nonneg_sum_def pos_sum_def)
next
  case (Plus l r)
  let ?v = "\<lambda>t. fst (reduce_par t ieee_add (replicate K (Finite 2)) (Finite 0))"
  from Plus.prems have "\<And>i. Some i \<in> set (leaves l) \<Longrightarrow> i < K"
    and "\<And>i. Some i \<in> set (leaves r) \<Longrightarrow> i < K"
    by simp_all
  with Plus.IH have l: "nonneg_sum (?v l)" "(\<exists>i. Some i \<in> set (leaves l)) \<longrightarrow> pos_sum (?v l)"
    and r: "nonneg_sum (?v r)" "(\<exists>i. Some i \<in> set (leaves r)) \<longrightarrow> pos_sum (?v r)"
    by blast+
  have v: "?v (Plus l r) = ieee_add (?v l) (?v r)"
    by (rule fst_reduce_par_Plus)
  show ?case
  proof (intro conjI impI)
    show "nonneg_sum (?v (Plus l r))"
      unfolding v using l(1) r(1) by (rule ieee_add_nonneg(1))
  next
    assume "\<exists>i. Some i \<in> set (leaves (Plus l r))"
    then have "pos_sum (?v l) \<or> pos_sum (?v r)"
      using l(2) r(2) by auto
    then show "pos_sum (?v (Plus l r))"
      unfolding v using ieee_add_nonneg(2) [OF l(1) r(1)] by blast
  qed
qed

lemma kSize_pos: "0 < kSize"
  by (simp add: kSize_def)

lemma grouping_sum_positive:
  assumes "is_schedule kSize order" and "is_grouping kSize tree"
  shows "pos_sum (fst (stdpar_compute ieee order tree))"
proof -
  from assms(2) have s: "set (leaves tree) = insert None (Some ` {0..<kSize})"
    by (simp add: is_grouping_def)
  then have "\<And>i. Some i \<in> set (leaves tree) \<Longrightarrow> i < kSize"
    by auto
  moreover from kSize_pos have "Some 0 \<in> Some ` {0..<kSize}"
    by simp
  with s have "\<exists>i. Some i \<in> set (leaves tree)"
    by blast
  ultimately show ?thesis
    using tree_sum_sign [of tree kSize] by (simp add: stdpar_compute_ieee [OF assms(1)])
qed

lemma pos_sum_gt_zero: "pos_sum v \<Longrightarrow> float_gt v (Finite 0)"
  by (auto simp: pos_sum_def)

lemma left_to_right_compute:
  "fst (stdpar_compute ieee [0..<kSize] (left_to_right kSize)) = Finite 33554432"
proof -
  have "fst (reduce_par (left_to_right kSize) ieee_add (replicate kSize (Finite 2)) (Finite 0)) =
      Finite (of_nat (min (2 * kSize) (2 ^ 25)))"
    by (rule left_to_right_sum) simp
  moreover have "(of_nat (min (2 * kSize) (2 ^ 25)) :: rat) = 33554432"
    by (simp add: kSize_def)
  ultimately show ?thesis
    by (simp only: stdpar_compute_ieee [OF is_schedule_upt])
qed

lemma two_halves_compute:
  "fst (stdpar_compute ieee [0..<kSize] (two_halves kSize)) = Finite 67108864"
proof -
  have "fst (reduce_par (two_halves kSize) ieee_add (replicate kSize (Finite 2)) (Finite 0)) =
      Finite 67108864"
    by (rule two_halves_sum) (simp_all add: kSize_def)
  then show ?thesis
    by (simp only: stdpar_compute_ieee [OF is_schedule_upt])
qed

lemma in_blocks_compute:
  "fst (stdpar_compute ieee [0..<kSize] (in_blocks 256 kSize)) = Finite 200000000"
proof -
  have d: "kSize div 256 = 390625"
    by (simp add: kSize_def)
  have "fst (reduce_par (blocks Init 256 390625) ieee_add (replicate kSize (Finite 2)) (Finite 0)) =
      Finite (of_nat (512 * 390625))"
    by (rule blocks_sum) (simp_all add: kSize_def)
  then show ?thesis
    by (simp only: stdpar_compute_ieee [OF is_schedule_upt] in_blocks_def d) simp
qed

lemma is_grouping_in_blocks_kSize: "is_grouping kSize (in_blocks 256 kSize)"
  by (rule is_grouping_in_blocks) (simp_all add: kSize_def)

section \<open>Properties of the test that depend on the values computed\<close>

text \<open>
  C3. In the test, whatever order the positions are processed in, whatever the grouping
  of the reduction and whatever the arithmetic, the buffer after the transform step holds
  at every index \<open>i\<close> the product of the element that was at index \<open>i\<close> before, which
  is \<open>1.0f\<close>, and \<open>2.0f\<close>: a function of that one element only. Under binary32
  arithmetic this is exactly 2. The length of the buffer is that of the buffer before the
  step.
\<close>

theorem transform_doubles_every_element:
  assumes "is_schedule kSize order" and "i < kSize"
  shows "snd (stdpar_compute ar order tree) ! i =
       fmul ar (replicate kSize (Finite 1) ! i) (Finite 2) \<and>
     snd (stdpar_compute ar order tree) ! i = fmul ar (Finite 1) (Finite 2) \<and>
     snd (stdpar_compute ieee order tree) ! i = Finite 2 \<and>
     length (snd (stdpar_compute ar order tree)) =
       length (replicate kSize (Finite 1) :: float32 list)"
proof -
  have "snd (stdpar_compute ar order tree) =
      map (\<lambda>x. fmul ar x (Finite 2)) (replicate kSize (Finite 1))"
    using assms(1) by (simp add: stdpar_compute_def Let_def reduce_par_frame transform_par_map)
  moreover have "snd (stdpar_compute ieee order tree) = replicate kSize (Finite 2)"
    by (simp add: stdpar_compute_ieee [OF assms(1)] reduce_par_frame)
  ultimately show ?thesis
    using assms(2) by simp
qed

theorem transform_doubles_every_element_witness:
  "is_schedule kSize [0..<kSize] \<and> 99999999 < kSize \<and>
   snd (stdpar_compute ieee [0..<kSize] (left_to_right kSize)) ! 99999999 =
     fmul ieee (replicate kSize (Finite 1) ! 99999999) (Finite 2) \<and>
   snd (stdpar_compute ieee [0..<kSize] (left_to_right kSize)) ! 99999999 =
     fmul ieee (Finite 1) (Finite 2) \<and>
   snd (stdpar_compute ieee [0..<kSize] (left_to_right kSize)) ! 99999999 = Finite 2 \<and>
   length (snd (stdpar_compute ieee [0..<kSize] (left_to_right kSize))) =
     length (replicate kSize (Finite 1) :: float32 list)"
proof -
  have s: "is_schedule kSize [0..<kSize]"
    by (rule is_schedule_upt)
  have i: "99999999 < kSize"
    by (simp add: kSize_def)
  from s i transform_doubles_every_element [OF s i, of ieee "left_to_right kSize"]
  show ?thesis by (intro conjI) blast+
qed

text \<open>
  C1, as stated, fails. Processing the positions in index order and reducing from left to
  right are a legal execution of the two algorithms, and under binary32 arithmetic the
  reduced sum of that execution is 33,554,432: once the running sum has reached
  \<open>2 ^ 25\<close>, adding 2 is a tie that rounds back to the running sum. The distance to
  200,000,000 is more than half of 200,000,000.
\<close>

theorem left_to_right_sum_is_not_200000000:
  "is_schedule kSize [0..<kSize] \<and> is_grouping kSize (left_to_right kSize) \<and>
   fst (stdpar_compute ieee [0..<kSize] (left_to_right kSize)) = Finite 33554432 \<and>
   (200000000 - 33554432 :: rat) > 200000000 / 2"
  using is_schedule_upt [of kSize] is_grouping_left_to_right [of kSize] left_to_right_compute
  by simp

text \<open>
  C1, amended. For the fixed input and binary32 arithmetic, in every execution (every
  order of processing and every grouping of the reduction) the buffer holds 100,000,000
  elements 2 after the doubling, the reduced sum is greater than zero and the exit code
  is 0. The value of the sum depends on the grouping: it is 200,000,000 when the elements
  are summed in blocks of 256, where no addition rounds.
\<close>

theorem reduced_sum_positive_for_every_grouping:
  assumes "is_schedule kSize order" and "is_grouping kSize tree"
  shows "snd (stdpar_compute ieee order tree) = replicate 100000000 (Finite 2) \<and>
     float_gt (fst (stdpar_compute ieee order tree)) (Finite 0) \<and>
     stdpar_main ieee order tree = 0 \<and>
     is_grouping kSize (in_blocks 256 kSize) \<and>
     fst (stdpar_compute ieee order (in_blocks 256 kSize)) = Finite 200000000"
proof -
  have p: "pos_sum (fst (stdpar_compute ieee order tree))"
    using assms by (rule grouping_sum_positive)
  have "snd (stdpar_compute ieee order tree) = replicate kSize (Finite 2)"
    by (simp add: stdpar_compute_ieee [OF assms(1)] reduce_par_frame)
  then have "snd (stdpar_compute ieee order tree) = replicate 100000000 (Finite 2)"
    by (simp only: kSize_def)
  moreover from p have gt: "float_gt (fst (stdpar_compute ieee order tree)) (Finite 0)"
    by (rule pos_sum_gt_zero)
  moreover from gt have "stdpar_main ieee order tree = 0"
    by (simp add: stdpar_main_def split_beta)
  moreover have "fst (stdpar_compute ieee order (in_blocks 256 kSize)) = Finite 200000000"
    using in_blocks_compute
    by (simp only: stdpar_compute_ieee [OF assms(1)] stdpar_compute_ieee [OF is_schedule_upt])
  ultimately show ?thesis
    using is_grouping_in_blocks_kSize by (intro conjI)
qed

theorem reduced_sum_positive_for_every_grouping_witness:
  "is_schedule kSize [0..<kSize] \<and> is_grouping kSize (left_to_right kSize) \<and>
   snd (stdpar_compute ieee [0..<kSize] (left_to_right kSize)) =
     replicate 100000000 (Finite 2) \<and>
   float_gt (fst (stdpar_compute ieee [0..<kSize] (left_to_right kSize))) (Finite 0) \<and>
   stdpar_main ieee [0..<kSize] (left_to_right kSize) = 0 \<and>
   is_grouping kSize (in_blocks 256 kSize) \<and>
   fst (stdpar_compute ieee [0..<kSize] (in_blocks 256 kSize)) = Finite 200000000"
proof -
  have s: "is_schedule kSize [0..<kSize]"
    by (rule is_schedule_upt)
  have g: "is_grouping kSize (left_to_right kSize)"
    by (rule is_grouping_left_to_right)
  from s g reduced_sum_positive_for_every_grouping [OF s g]
  show ?thesis by (intro conjI) blast+
qed

text \<open>
  C8, as stated, fails. Two legal executions on the fixed input produce different reduced
  sums under binary32 arithmetic: reducing from left to right gives 33,554,432, reducing
  each half from left to right and adding the two sums gives 67,108,864.
\<close>

theorem reduced_sum_differs_between_groupings:
  "is_schedule kSize [0..<kSize] \<and>
   is_grouping kSize (left_to_right kSize) \<and> is_grouping kSize (two_halves kSize) \<and>
   fst (stdpar_compute ieee [0..<kSize] (left_to_right kSize)) = Finite 33554432 \<and>
   fst (stdpar_compute ieee [0..<kSize] (two_halves kSize)) = Finite 67108864 \<and>
   fst (stdpar_compute ieee [0..<kSize] (left_to_right kSize)) \<noteq>
     fst (stdpar_compute ieee [0..<kSize] (two_halves kSize))"
  using is_schedule_upt [of kSize] is_grouping_left_to_right [of kSize]
    is_grouping_two_halves [OF kSize_pos] left_to_right_compute two_halves_compute
  by simp

text \<open>
  C8, amended. For the fixed input and binary32 arithmetic, any two executions (any
  orders of processing and any groupings of the reduction) end with the same exit code,
  which is not 1, and leave the same buffer; the reduced sum may differ between them. So
  an exit code 1 is never the outcome of a run in which the two algorithms work.
\<close>

theorem exit_code_same_in_any_two_runs:
  assumes "is_schedule kSize order" and "is_grouping kSize tree"
    and "is_schedule kSize order'" and "is_grouping kSize tree'"
  shows "stdpar_main ieee order tree = stdpar_main ieee order' tree' \<and>
     stdpar_main ieee order tree \<noteq> 1 \<and>
     snd (stdpar_compute ieee order tree) = snd (stdpar_compute ieee order' tree')"
proof -
  have "stdpar_main ieee order tree = 0"
    using pos_sum_gt_zero [OF grouping_sum_positive [OF assms(1,2)]]
    by (simp add: stdpar_main_def split_beta)
  moreover have "stdpar_main ieee order' tree' = 0"
    using pos_sum_gt_zero [OF grouping_sum_positive [OF assms(3,4)]]
    by (simp add: stdpar_main_def split_beta)
  moreover have "snd (stdpar_compute ieee order tree) = snd (stdpar_compute ieee order' tree')"
    by (simp add: stdpar_compute_ieee [OF assms(1)] stdpar_compute_ieee [OF assms(3)]
        reduce_par_frame)
  ultimately show ?thesis by simp
qed

theorem exit_code_same_in_any_two_runs_witness:
  "is_schedule kSize [0..<kSize] \<and> is_grouping kSize (left_to_right kSize) \<and>
   is_grouping kSize (two_halves kSize) \<and>
   stdpar_main ieee [0..<kSize] (left_to_right kSize) =
     stdpar_main ieee [0..<kSize] (two_halves kSize) \<and>
   stdpar_main ieee [0..<kSize] (left_to_right kSize) \<noteq> 1 \<and>
   snd (stdpar_compute ieee [0..<kSize] (left_to_right kSize)) =
     snd (stdpar_compute ieee [0..<kSize] (two_halves kSize))"
proof -
  have s: "is_schedule kSize [0..<kSize]"
    by (rule is_schedule_upt)
  have g: "is_grouping kSize (left_to_right kSize)"
    by (rule is_grouping_left_to_right)
  have h: "is_grouping kSize (two_halves kSize)"
    by (rule is_grouping_two_halves) (rule kSize_pos)
  from s g h exit_code_same_in_any_two_runs [OF s g s h]
  show ?thesis by (intro conjI) blast+
qed

text \<open>
  C10. The reduction does not modify the buffer. For every grouping of the reduction the
  buffer after it is the buffer before it; in the test this is the buffer the transform
  step produced, and its length is still 100,000,000.
\<close>

theorem reduce_leaves_buffer_unchanged:
  "snd (reduce_par tree (fadd ar) buf (Finite 0)) = buf \<and>
   snd (stdpar_compute ar order tree) =
     transform_par order (\<lambda>x. fmul ar x (Finite 2)) (replicate kSize (Finite 1)) \<and>
   length (snd (stdpar_compute ar order tree)) = 100000000"
  by (simp add: reduce_par_frame stdpar_compute_def length_transform_par kSize_def)

end
